theory Spec2Isabelle
  imports Main
begin

section \<open>The note store behind \<open>load_note\<close> and \<open>save_note\<close>\<close>

text \<open>
  \<open>App.tsx\<close> reaches durable storage only through the two backend commands
  \<open>invoke("load_note")\<close> and \<open>invoke("save_note", {content})\<close>. The commands themselves
  belong to the native shell of the application and are not part of the TypeScript
  sources, so the store is written down from the specification (sections 4.1, 6 and 7).
  A rejected \<open>invoke\<close> carries the error as text.
\<close>

datatype storage_error = StorageUnavailable | WriteFailed

fun describe :: "storage_error \<Rightarrow> string" where
  "describe StorageUnavailable = ''StorageUnavailable''"
| "describe WriteFailed = ''WriteFailed''"

text \<open>
  Modelled from the spec: the storage layer is missing from the sources. Section 7 names
  the two ways storage fails; accordingly the backing medium is healthy, cannot be
  reached at all (StorageUnavailable), or tears a write after a number of characters
  (WriteFailed). Section 6: the persisted state is a single opaque text blob; before
  the first write there is none.
\<close>

datatype medium = Healthy | Unavailable | Partial nat

record note_store =
  blob :: "string option"
  status :: medium

text \<open>
  Modelled from the spec: the backend command \<open>load_note\<close> is missing from the sources.
  Section 4.1: \<open>load\<close> fails with StorageUnavailable if the backing medium cannot be read;
  on first run this is not an error and the empty content is returned. Section 6:
  \<open>load_note\<close> returns the durable note content, the empty string if none exists yet.
\<close>

definition load_note :: "note_store \<Rightarrow> string + string" where
  "load_note st =
     (case blob st of
        None \<Rightarrow> Inr []
      | Some c \<Rightarrow> (if status st = Unavailable then Inl (describe StorageUnavailable) else Inr c))"

text \<open>
  Modelled from the spec: the backend command \<open>save_note\<close> is missing from the sources.
  Section 4.1: \<open>save\<close> fails with StorageUnavailable on an I/O error and with WriteFailed
  on a partial write; a successful save is durable before it returns, and each write
  replaces the prior value as a whole (section 3).
\<close>

definition save_note :: "note_store \<Rightarrow> string \<Rightarrow> (string + unit) \<times> note_store" where
  "save_note st c =
     (case status st of
        Healthy \<Rightarrow> (Inr (), st\<lparr>blob := Some c\<rparr>)
      | Unavailable \<Rightarrow> (Inl (describe StorageUnavailable), st)
      | Partial n \<Rightarrow> (Inl (describe WriteFailed), st\<lparr>blob := Some (take n c)\<rparr>))"

text \<open>
  Modelled from the spec: the bytes of the single stored blob (section 6); there are none
  before the first write.
\<close>

definition stored_bytes :: "note_store \<Rightarrow> string" where
  "stored_bytes st = (case blob st of None \<Rightarrow> [] | Some c \<Rightarrow> c)"


section \<open>The window visibility controller\<close>

text \<open>
  Modelled from the spec: the visibility controller (global hotkey, window level) lives in
  the native shell and is missing from the sources; \<open>App.tsx\<close> only calls
  \<open>force_window_on_top\<close>. Section 4.3 gives its three states.
\<close>

datatype WindowVisibilityState = Hidden | Visible | VisibleForcedOnTop

text \<open>
  Modelled from the spec: \<open>toggleHotkey\<close> is missing from the sources. Section 4.3:
  Hidden goes to Visible; Visible and VisibleForcedOnTop go to Hidden.
\<close>

fun toggleHotkey :: "WindowVisibilityState \<Rightarrow> WindowVisibilityState" where
  "toggleHotkey Hidden = Visible"
| "toggleHotkey Visible = Hidden"
| "toggleHotkey VisibleForcedOnTop = Hidden"

text \<open>
  Modelled from the spec: \<open>forceOnTop\<close> is missing from the sources. Section 4.3:
  Visible goes to VisibleForcedOnTop, and the operation is idempotent when the window is
  already forced. No transition is listed for Hidden, which is left as it is.
\<close>

fun forceOnTop :: "WindowVisibilityState \<Rightarrow> WindowVisibilityState" where
  "forceOnTop Visible = VisibleForcedOnTop"
| "forceOnTop VisibleForcedOnTop = VisibleForcedOnTop"
| "forceOnTop Hidden = Hidden"


section \<open>The browser: timers, clock, console\<close>

text \<open>
  What the component writes with \<open>console.error\<close>, \<open>console.log\<close> and \<open>alert\<close>.
\<close>

datatype console_entry =
    ConsoleError string string
  | ConsoleLog string
  | ConsoleLog2 string string
  | Alert string

text \<open>
  The two callbacks the file hands to \<open>setTimeout\<close>: a call of \<open>saveNote\<close> with the
  content the closure holds, and \<open>editor?.commands.focus()\<close> of the editor revision.
\<close>

datatype callback = CallSaveNote string | FocusEditor

text \<open>
  The surroundings of the component on the single-threaded event loop.
  \<^item> \<open>timers\<close>: the timeouts waiting, each with its id, its deadline and its callback;
  \<^item> \<open>nextId\<close>: the id the next \<open>setTimeout\<close> returns;
  \<^item> \<open>now\<close>: the clock in milliseconds;
  \<^item> \<open>store\<close>: the durable store behind the backend commands;
  \<^item> \<open>saves\<close>: every \<open>save_note\<close> invocation issued, with its time and its content;
  \<^item> \<open>console\<close>: the output written;
  \<^item> \<open>uncaught\<close>: rejections that left a handler without being caught.
\<close>

record browser =
  timers :: "(nat \<times> nat \<times> callback) list"
  nextId :: nat
  now :: nat
  store :: note_store
  saves :: "(nat \<times> string) list"
  console :: "console_entry list"
  uncaught :: "string list"

text \<open>
  \<open>setTimeout(f, delay)\<close> queues a timeout and returns its id, which is \<open>nextId\<close> of
  the world it was called in.
\<close>

definition setTimeout :: "callback \<Rightarrow> nat \<Rightarrow> 'a browser_scheme \<Rightarrow> 'a browser_scheme" where
  "setTimeout f delay w =
     w\<lparr>timers := timers w @ [(nextId w, now w + delay, f)], nextId := Suc (nextId w)\<rparr>"

text \<open>
  \<open>clearTimeout(id)\<close> removes that timeout if it still waits; \<open>clearTimeout(undefined)\<close>
  does nothing.
\<close>

definition clearTimeout :: "nat option \<Rightarrow> 'a browser_scheme \<Rightarrow> 'a browser_scheme" where
  "clearTimeout tid w =
     (case tid of
        None \<Rightarrow> w
      | Some i \<Rightarrow> w\<lparr>timers := filter (\<lambda>(j, d, f). j \<noteq> i) (timers w)\<rparr>)"

text \<open>
  \<open>saveNote\<close>: \<open>try { await invoke("save_note", {content}) } catch (error)
  { console.error("Failed to save note:", error) }\<close>. In the first revision the content is
  the \<open>noteContent\<close> of the closure, in the editor revision it is the argument.
\<close>

definition saveNote :: "string \<Rightarrow> 'a browser_scheme \<Rightarrow> 'a browser_scheme" where
  "saveNote c w =
     (case save_note (store w) c of
        (Inr u, st') \<Rightarrow> w\<lparr>store := st', saves := saves w @ [(now w, c)]\<rparr>
      | (Inl error, st') \<Rightarrow>
          w\<lparr>store := st', saves := saves w @ [(now w, c)],
            console := console w @ [ConsoleError ''Failed to save note:'' error]\<rparr>)"

text \<open>
  Running a callback. The one of the auto-save effect is
  \<open>if (noteContent !== undefined) { saveNote() }\<close>; the state cell holds a string from
  \<open>useState("")\<close> on, so the test always passes. Focusing the editor changes nothing
  that is kept here.
\<close>

fun call :: "callback \<Rightarrow> 'a browser_scheme \<Rightarrow> 'a browser_scheme" where
  "call (CallSaveNote c) w = saveNote c w"
| "call FocusEditor w = w"

text \<open>The timeouts that have come due run one after the other, each at its deadline.\<close>

fun fire_all :: "(nat \<times> nat \<times> callback) list \<Rightarrow> 'a browser_scheme \<Rightarrow> 'a browser_scheme" where
  "fire_all [] w = w"
| "fire_all ((i, d, f) # ts) w = fire_all ts (call f (w\<lparr>now := max (now w) d\<rparr>))"

text \<open>
  The event loop lets the clock reach \<open>t\<close>: every timeout whose deadline has come
  leaves the queue and runs, the earliest deadline first and, among equal deadlines,
  the one queued first. No callback of the file queues a timeout, so none is added
  meanwhile.
\<close>

definition advance :: "nat \<Rightarrow> 'a browser_scheme \<Rightarrow> 'a browser_scheme" where
  "advance t w =
     (let ripe = sort_key (\<lambda>(i, d, f). d) (filter (\<lambda>(i, d, f). d \<le> t) (timers w));
          w' = fire_all ripe (w\<lparr>timers := filter (\<lambda>(i, d, f). t < d) (timers w)\<rparr>)
      in w'\<lparr>now := max (now w') t\<rparr>)"

text \<open>The deadlines and callbacks that wait, without the ids.\<close>

definition pending :: "'a browser_scheme \<Rightarrow> (nat \<times> callback) list" where
  "pending w = map snd (timers w)"


section \<open>The component \<open>App\<close>, textarea revisions\<close>

text \<open>
  The first and the last revision in the file have the same state, effects and handlers.
  \<^item> \<open>noteContent\<close>, \<open>showSettings\<close>, \<open>isLoading\<close>: the three \<open>useState\<close> cells
    (\<open>showSettings\<close> is called \<open>showInfo\<close> in the last revision);
  \<^item> \<open>mounted\<close>: the component has not been torn down;
  \<^item> \<open>timeoutId\<close>: the \<open>const timeoutId\<close> of the auto-save effect that ran last, which
    its cleanup holds;
  \<^item> \<open>loadPending\<close>: the promise of \<open>invoke("load_note")\<close> has not settled yet.
\<close>

record world = browser +
  noteContent :: string
  showSettings :: bool
  isLoading :: bool
  mounted :: bool
  timeoutId :: "nat option"
  loadPending :: bool

text \<open>\<open>return () => clearTimeout(timeoutId)\<close>, the cleanup of the auto-save effect.\<close>

definition cleanup :: "world \<Rightarrow> world" where
  "cleanup w = clearTimeout (timeoutId w) w"

text \<open>
  The body of the auto-save effect:
  \<open>const timeoutId = setTimeout(() => { ... saveNote() }, 500)\<close>. The closure belongs to
  the render that ran the effect, so the \<open>saveNote\<close> it calls sends the \<open>noteContent\<close> of
  that render.
\<close>

definition autoSaveEffect :: "world \<Rightarrow> world" where
  "autoSaveEffect w =
     (setTimeout (CallSaveNote (noteContent w)) 500 w)\<lparr>timeoutId := Some (nextId w)\<rparr>"

text \<open>
  \<open>setNoteContent(c)\<close>. A state setter of a component that has been torn down does
  nothing. The effect has the dependency array \<open>[noteContent]\<close>: a render with a changed
  \<open>noteContent\<close> runs the cleanup of the previous effect and then the effect again;
  setting the value the state already holds runs neither.
\<close>

definition setNoteContent :: "string \<Rightarrow> world \<Rightarrow> world" where
  "setNoteContent c w =
     (if \<not> mounted w then w
      else if c = noteContent w then w
      else autoSaveEffect (cleanup (w\<lparr>noteContent := c\<rparr>)))"

definition setIsLoading :: "bool \<Rightarrow> world \<Rightarrow> world" where
  "setIsLoading b w = (if mounted w then w\<lparr>isLoading := b\<rparr> else w)"

definition setShowSettings :: "bool \<Rightarrow> world \<Rightarrow> world" where
  "setShowSettings b w = (if mounted w then w\<lparr>showSettings := b\<rparr> else w)"

text \<open>
  \<open>loadNote\<close> after its \<open>await\<close>: \<open>setNoteContent(content)\<close> when the promise is
  fulfilled, \<open>console.error("Failed to load note:", error)\<close> when it is rejected, and
  \<open>setIsLoading(false)\<close> in the \<open>finally\<close> block.
\<close>

definition loadNote :: "string + string \<Rightarrow> world \<Rightarrow> world" where
  "loadNote r w =
     (case r of
        Inr content \<Rightarrow> setIsLoading False (setNoteContent content w)
      | Inl error \<Rightarrow>
          setIsLoading False
            (w\<lparr>console := console w @ [ConsoleError ''Failed to load note:'' error]\<rparr>))"

text \<open>
  \<open>handleDragStart\<close> awaits \<open>window.startDragging()\<close> outside any \<open>try\<close>: a rejection
  leaves the handler.
\<close>

definition handleDragStart :: "string + unit \<Rightarrow> 'a browser_scheme \<Rightarrow> 'a browser_scheme" where
  "handleDragStart r w =
     (case r of Inr u \<Rightarrow> w | Inl error \<Rightarrow> w\<lparr>uncaught := uncaught w @ [error]\<rparr>)"

text \<open>\<open>forceWindowOnTop\<close>, given how \<open>invoke("force_window_on_top")\<close> settles.\<close>

definition forceWindowOnTop :: "string + unit \<Rightarrow> world \<Rightarrow> world" where
  "forceWindowOnTop r w =
     (case r of
        Inr u \<Rightarrow> w\<lparr>console := console w @ [ConsoleLog ''Forced window on top'']\<rparr>
      | Inl error \<Rightarrow>
          w\<lparr>console := console w @ [ConsoleError ''Failed to force window on top:'' error]\<rparr>)"

text \<open>\<open>debugWindowInfo\<close>, given how \<open>invoke("debug_window_info")\<close> settles.\<close>

definition debugWindowInfo :: "string + string \<Rightarrow> world \<Rightarrow> world" where
  "debugWindowInfo r w =
     (case r of
        Inr info \<Rightarrow>
          w\<lparr>console := console w @
                [ConsoleLog2 (''Window Debug Info:'' @ [CHR 0x0A]) info,
                 Alert (''Debug info logged to console:'' @ [CHR 0x0A, CHR 0x0A] @ info)]\<rparr>
      | Inl error \<Rightarrow>
          w\<lparr>console := console w @ [ConsoleError ''Failed to get debug info:'' error]\<rparr>)"

text \<open>
  What reaches the component:
  \<^item> \<open>Edit c\<close>: \<open>onChange\<close> of the textarea, \<open>setNoteContent(e.target.value)\<close>;
  \<^item> \<open>LoadSettles r\<close>: the promise of \<open>load_note\<close> settles, once;
  \<^item> \<open>Unmount\<close>: the component is torn down and the effect cleanup runs;
  \<^item> \<open>SetStatus m\<close>: the backing medium changes condition;
  \<^item> \<open>SettingsClick b\<close>: the settings button and its close button;
  \<^item> \<open>ForceClick r\<close>, \<open>DebugClick r\<close>, \<open>DragStart r\<close>: the two buttons of the settings
    panel and the drag handle, with the way the backend call settles.
\<close>

datatype event =
    Edit string
  | LoadSettles "string + string"
  | Unmount
  | SetStatus medium
  | SettingsClick bool
  | ForceClick "string + unit"
  | DebugClick "string + string"
  | DragStart "string + unit"

fun handle :: "event \<Rightarrow> world \<Rightarrow> world" where
  "handle (Edit c) w = setNoteContent c w"
| "handle (LoadSettles r) w =
     (if loadPending w then loadNote r (w\<lparr>loadPending := False\<rparr>) else w)"
| "handle Unmount w = (if mounted w then (cleanup w)\<lparr>mounted := False\<rparr> else w)"
| "handle (SetStatus m) w = w\<lparr>store := (store w)\<lparr>status := m\<rparr>\<rparr>"
| "handle (SettingsClick b) w = setShowSettings b w"
| "handle (ForceClick r) w = forceWindowOnTop r w"
| "handle (DebugClick r) w = debugWindowInfo r w"
| "handle (DragStart r) w = handleDragStart r w"

text \<open>Events arrive with their time; the clock is brought there before each one.\<close>

fun run :: "world \<Rightarrow> (nat \<times> event) list \<Rightarrow> world" where
  "run w [] = w"
| "run w ((t, e) # es) = run (handle e (advance t w)) es"

text \<open>
  The first render: \<open>useState("")\<close>, \<open>useState(false)\<close>, \<open>useState(true)\<close>; then both
  effects run, the first calling \<open>loadNote()\<close>, which leaves its promise pending, the
  second arming the auto-save timeout.
\<close>

definition initial :: "note_store \<Rightarrow> world" where
  "initial st =
     \<lparr>timers = [], nextId = 0, now = 0, store = st, saves = [], console = [], uncaught = [],
      noteContent = [], showSettings = False, isLoading = True, mounted = True,
      timeoutId = None, loadPending = False\<rparr>"

definition mount :: "note_store \<Rightarrow> world" where
  "mount st = autoSaveEffect ((initial st)\<lparr>loadPending := True\<rparr>)"

text \<open>Sequences of edits: time and content of each.\<close>

definition edits :: "(nat \<times> string) list \<Rightarrow> (nat \<times> event) list" where
  "edits es = map (\<lambda>(t, c). (t, Edit c)) es"

text \<open>
  \<open>rapid t es\<close>: each event comes no earlier than the one before it (the first no earlier
  than \<open>t\<close>) and less than 500 ms after it.
\<close>

fun rapid :: "nat \<Rightarrow> (nat \<times> string) list \<Rightarrow> bool" where
  "rapid t [] = True"
| "rapid t ((t', c) # es) = (t \<le> t' \<and> t' < t + 500 \<and> rapid t' es)"

text \<open>
  \<open>changing c es\<close>: each edit carries a content other than the one before it, as every
  \<open>onChange\<close> of a controlled textarea does.
\<close>

fun changing :: "string \<Rightarrow> (nat \<times> string) list \<Rightarrow> bool" where
  "changing c [] = True"
| "changing c ((t, c') # es) = (c' \<noteq> c \<and> changing c' es)"

text \<open>A store that has never been written, on a healthy medium.\<close>

definition first_run :: note_store where
  "first_run = \<lparr>blob = None, status = Healthy\<rparr>"

text \<open>A store holding a note, on a healthy medium.\<close>

definition holding :: "string \<Rightarrow> note_store" where
  "holding c = \<lparr>blob = Some c, status = Healthy\<rparr>"

text \<open>Start of the application: mount, then the load settles at time \<open>L\<close> with \<open>r\<close>.\<close>

definition startup :: "note_store \<Rightarrow> nat \<Rightarrow> string + string \<Rightarrow> world" where
  "startup st L r = run (mount st) [(L, LoadSettles r)]"

text \<open>
  \<open>armed w t c\<close>: the component is mounted, the clock stands at \<open>t\<close>, and the one timeout
  that waits is the one of the current effect, set just now to send \<open>c\<close>.
\<close>

definition armed :: "world \<Rightarrow> nat \<Rightarrow> string \<Rightarrow> bool" where
  "armed w t c =
     (pending w = [(t + 500, CallSaveNote c)] \<and> map (\<lambda>x. Some (fst x)) (timers w) = [timeoutId w] \<and>
      now w = t \<and> mounted w)"

text \<open>
  \<open>tidy w\<close>: at most one timeout waits, and if one does, the component is mounted and
  the timeout is the one that the cleanup of the current effect holds.
\<close>

definition tidy :: "world \<Rightarrow> bool" where
  "tidy w =
     (case timers w of
        [] \<Rightarrow> True
      | x # xs \<Rightarrow> xs = [] \<and> timeoutId w = Some (fst x) \<and> mounted w)"


section \<open>The component \<open>App\<close>, editor revision\<close>

text \<open>
  The second revision in the file keeps the note in a rich-text editor and saves through
  \<open>debounce\<close>. The editor itself is opaque.
  \<^item> \<open>showInfo\<close>, \<open>showToolbar\<close>, \<open>isLoading_ed\<close>: the three \<open>useState\<close> cells (the last
    is \<open>isLoading\<close> in the source);
  \<^item> \<open>timeoutId_ed\<close>: the variable \<open>let timeoutId\<close> of the closure that the call of
    \<open>debounce\<close> in the current render built;
  \<^item> \<open>seeded\<close>: the content handed to \<open>editor.commands.setContent\<close>, if any;
  \<^item> \<open>loadPending_ed\<close>: the promise of \<open>invoke("load_note")\<close> has not settled yet.
\<close>

record editor_world = browser +
  showInfo :: bool
  showToolbar :: bool
  isLoading_ed :: bool
  timeoutId_ed :: "nat option"
  seeded :: "string option"
  loadPending_ed :: bool

text \<open>
  \<open>debounce(func, delay)\<close> returns a closure over \<open>let timeoutId\<close>; a call of the closure
  does \<open>clearTimeout(timeoutId)\<close> and then
  \<open>timeoutId = setTimeout(() => func.apply(null, args), delay)\<close>.
\<close>

definition debounce :: "(string \<Rightarrow> callback) \<Rightarrow> nat \<Rightarrow> string \<Rightarrow> editor_world \<Rightarrow> editor_world" where
  "debounce func delay args w =
     (setTimeout (func args) delay (clearTimeout (timeoutId_ed w) w))
       \<lparr>timeoutId_ed := Some (nextId w)\<rparr>"

text \<open>\<open>const debouncedSave = debounce((content) => { saveNote(content) }, 500)\<close>.\<close>

definition debouncedSave :: "string \<Rightarrow> editor_world \<Rightarrow> editor_world" where
  "debouncedSave content w = debounce CallSaveNote 500 content w"

text \<open>
  A render runs the body of \<open>App\<close> again. \<open>debounce\<close> is declared and called inside that
  body, without \<open>useMemo\<close>, \<open>useRef\<close> or \<open>useCallback\<close>: every render builds a new
  closure, whose \<open>timeoutId\<close> is undefined. A timeout queued through the previous closure
  stays in the queue.
\<close>

definition render :: "editor_world \<Rightarrow> editor_world" where
  "render w = w\<lparr>timeoutId_ed := None\<rparr>"

text \<open>\<open>onUpdate: ({ editor }) => { debouncedSave(editor.getText()) }\<close>.\<close>

definition onUpdate :: "string \<Rightarrow> editor_world \<Rightarrow> editor_world" where
  "onUpdate text w = debouncedSave text w"

text \<open>\<open>content.replace(/\n/g, '<br>')\<close>.\<close>

definition htmlContent :: "string \<Rightarrow> string" where
  "htmlContent content = concat (map (\<lambda>ch. if ch = CHR 0x0A then ''<br>'' else [ch]) content)"

text \<open>
  \<open>loadNote\<close> of the editor revision after its \<open>await\<close>: a non-empty content is handed to
  the editor, a timeout of 100 ms is queued to focus it, a rejection is written to the
  console, and \<open>setIsLoading(false)\<close> runs in the \<open>finally\<close> block.
\<close>

definition loadNote_ed :: "string + string \<Rightarrow> editor_world \<Rightarrow> editor_world" where
  "loadNote_ed r w =
     (case r of
        Inr content \<Rightarrow>
          (setTimeout FocusEditor 100
             (if content \<noteq> [] then w\<lparr>seeded := Some (htmlContent content)\<rparr> else w))
            \<lparr>isLoading_ed := False\<rparr>
      | Inl error \<Rightarrow>
          w\<lparr>console := console w @ [ConsoleError ''Failed to load note:'' error],
            isLoading_ed := False\<rparr>)"

text \<open>
  What reaches the editor revision. Each of these ends in a render: the state setters
  cause one, and \<open>useEditor\<close> renders the component again after every change of the
  document.
  \<^item> \<open>Update text\<close>: the document changed and \<open>editor.getText()\<close> is \<open>text\<close>;
  \<^item> \<open>LoadSettles_ed r\<close>: the promise of \<open>load_note\<close> settles, once;
  \<^item> \<open>ToolbarClick\<close>: \<open>setShowToolbar(!showToolbar)\<close>;
  \<^item> \<open>InfoClick b\<close>: the info button and its close button;
  \<^item> \<open>SetStatus_ed m\<close>: the backing medium changes condition.
\<close>

datatype editor_event =
    Update string
  | LoadSettles_ed "string + string"
  | ToolbarClick
  | InfoClick bool
  | SetStatus_ed medium

fun handle_ed :: "editor_event \<Rightarrow> editor_world \<Rightarrow> editor_world" where
  "handle_ed (Update text) w = render (onUpdate text w)"
| "handle_ed (LoadSettles_ed r) w =
     (if loadPending_ed w then render (loadNote_ed r (w\<lparr>loadPending_ed := False\<rparr>)) else w)"
| "handle_ed ToolbarClick w = render (w\<lparr>showToolbar := \<not> showToolbar w\<rparr>)"
| "handle_ed (InfoClick b) w = render (w\<lparr>showInfo := b\<rparr>)"
| "handle_ed (SetStatus_ed m) w = w\<lparr>store := (store w)\<lparr>status := m\<rparr>\<rparr>"

fun run_ed :: "editor_world \<Rightarrow> (nat \<times> editor_event) list \<Rightarrow> editor_world" where
  "run_ed w [] = w"
| "run_ed w ((t, e) # es) = run_ed (handle_ed e (advance t w)) es"


text \<open>Sequences of document changes: time and text of each.\<close>

definition updates :: "(nat \<times> string) list \<Rightarrow> (nat \<times> editor_event) list" where
  "updates es = map (\<lambda>(t, c). (t, Update c)) es"



section \<open>Stepping the event loop\<close>

text \<open>A save changes the store, the list of saves and, when it fails, the console.\<close>

lemma saveNote_eq:
  "saveNote c w =
     w\<lparr>store := snd (save_note (store w) c), saves := saves w @ [(now w, c)],
       console := console w @
         (case fst (save_note (store w) c) of
            Inl e \<Rightarrow> [ConsoleError ''Failed to save note:'' e] | Inr u \<Rightarrow> [])\<rparr>"
proof (cases "save_note (store w) c")
  case (Pair r st')
  then show ?thesis by (cases r) (simp_all add: saveNote_def)
qed

lemma saveNote_saves: "saves (saveNote c w) = saves w @ [(now w, c)]"
  by (simp add: saveNote_eq)

lemma saveNote_store: "store (saveNote c w) = snd (save_note (store w) c)"
  by (simp add: saveNote_eq)


lemma call_shape:
  "\<exists>s v k. call f w = w\<lparr>store := s, saves := v, console := k\<rparr>"
proof (cases f)
  case (CallSaveNote c)
  then show ?thesis using saveNote_eq[of c w] by auto
next
  case FocusEditor
  have "w = w\<lparr>store := store w, saves := saves w, console := console w\<rparr>" by simp
  then show ?thesis using FocusEditor by (metis call.simps(2))
qed

lemma fire_all_shape:
  "\<exists>n s v k. fire_all ts w = w\<lparr>now := n, store := s, saves := v, console := k\<rparr>"
proof (induction ts arbitrary: w)
  case Nil
  have "w = w\<lparr>now := now w, store := store w, saves := saves w, console := console w\<rparr>"
    by simp
  then show ?case by (metis fire_all.simps(1))
next
  case (Cons x ts)
  obtain i d f where x: "x = (i, d, f)" by (cases x)
  obtain s v k where c: "call f (w\<lparr>now := max (now w) d\<rparr>) =
      w\<lparr>now := max (now w) d, store := s, saves := v, console := k\<rparr>"
    using call_shape[of f "w\<lparr>now := max (now w) d\<rparr>"] by auto
  obtain n' s' v' k' where
    "fire_all ts (w\<lparr>now := max (now w) d, store := s, saves := v, console := k\<rparr>) =
       w\<lparr>now := max (now w) d, store := s, saves := v, console := k\<rparr>
        \<lparr>now := n', store := s', saves := v', console := k'\<rparr>"
    using Cons.IH by blast
  then have "fire_all (x # ts) w = w\<lparr>now := n', store := s', saves := v', console := k'\<rparr>"
    using x c by simp
  then show ?case by blast
qed

text \<open>
  Letting the clock run touches the queue, the clock, the store, the saves and the
  console, and nothing of the component.
\<close>

lemma advance_shape:
  "\<exists>n s v k. advance t w =
     w\<lparr>timers := filter (\<lambda>(i, d, f). t < d) (timers w),
       now := n, store := s, saves := v, console := k\<rparr>"
proof -
  let ?w = "w\<lparr>timers := filter (\<lambda>(i, d, f). t < d) (timers w)\<rparr>"
  let ?ripe = "sort_key (\<lambda>(i, d, f). d) (filter (\<lambda>(i, d, f). d \<le> t) (timers w))"
  obtain n s v k where
    "fire_all ?ripe ?w = ?w\<lparr>now := n, store := s, saves := v, console := k\<rparr>"
    using fire_all_shape by blast
  then have "advance t w = ?w\<lparr>now := max n t, store := s, saves := v, console := k\<rparr>"
    by (simp add: advance_def Let_def)
  then show ?thesis by blast
qed

lemma advance_timers: "timers (advance t w) = filter (\<lambda>(i, d, f). t < d) (timers w)"
  using advance_shape[of t w] by auto

lemma advance_frame:
  "noteContent (advance t w) = noteContent w"
  "showSettings (advance t w) = showSettings w"
  "isLoading (advance t w) = isLoading w"
  "mounted (advance t w) = mounted w"
  "timeoutId (advance t w) = timeoutId w"
  "loadPending (advance t w) = loadPending w"
  using advance_shape[of t w] by auto

lemma advance_frame_browser:
  "nextId (advance t w) = nextId w"
  "uncaught (advance t w) = uncaught w"
  using advance_shape[of t w] by auto

lemma fire_all_now_le:
  "\<forall>x \<in> set ts. fst (snd x) \<le> t \<Longrightarrow> now w \<le> t \<Longrightarrow> now (fire_all ts w) \<le> t"
proof (induction ts arbitrary: w)
  case Nil
  then show ?case by simp
next
  case (Cons x ts)
  obtain i d f where x: "x = (i, d, f)" by (cases x)
  obtain s v k where c: "call f (w\<lparr>now := max (now w) d\<rparr>) =
      w\<lparr>now := max (now w) d, store := s, saves := v, console := k\<rparr>"
    using call_shape[of f "w\<lparr>now := max (now w) d\<rparr>"] by auto
  from Cons.prems x have "d \<le> t" by simp
  with Cons.prems(2)
  have "now (w\<lparr>now := max (now w) d, store := s, saves := v, console := k\<rparr>) \<le> t" by simp
  from Cons.IH[OF _ this] Cons.prems(1) show ?case using x c by simp
qed

lemma advance_now: "now w \<le> t \<Longrightarrow> now (advance t w) = t"
proof -
  assume a: "now w \<le> t"
  let ?w = "w\<lparr>timers := filter (\<lambda>(i, d, f). t < d) (timers w)\<rparr>"
  let ?ripe = "sort_key (\<lambda>(i, d, f). d) (filter (\<lambda>(i, d, f). d \<le> t) (timers w))"
  have "\<forall>x \<in> set ?ripe. fst (snd x) \<le> t" by auto
  from fire_all_now_le[OF this, of ?w] a have "now (fire_all ?ripe ?w) \<le> t" by simp
  then show ?thesis by (simp add: advance_def Let_def max_def)
qed

lemma advance_none: "timers w = [] \<Longrightarrow> advance t w = w\<lparr>now := max (now w) t\<rparr>"
proof -
  assume a: "timers w = []"
  have "w\<lparr>timers := []\<rparr> = w\<lparr>timers := timers w\<rparr>" by (simp only: a)
  then have "w\<lparr>timers := []\<rparr> = w" by simp
  then show ?thesis using a by (simp add: advance_def)
qed


lemma advance_one_early:
  assumes "timers w = [(i, d, f)]" and "t < d"
  shows "advance t w = w\<lparr>now := max (now w) t\<rparr>"
proof -
  have "w\<lparr>timers := [(i, d, f)]\<rparr> = w\<lparr>timers := timers w\<rparr>" by (simp only: assms(1))
  then have "w\<lparr>timers := [(i, d, f)]\<rparr> = w" by simp
  then show ?thesis using assms by (simp add: advance_def)
qed

lemma advance_one_due:
  assumes "timers w = [(i, d, f)]" and "d \<le> t"
  shows "advance t w =
           (call f (w\<lparr>timers := [], now := max (now w) d\<rparr>))\<lparr>now := max (max (now w) d) t\<rparr>"
proof -
  obtain s v k where c: "call f (w\<lparr>timers := [], now := max (now w) d\<rparr>) =
      w\<lparr>timers := [], now := max (now w) d, store := s, saves := v, console := k\<rparr>"
    using call_shape[of f "w\<lparr>timers := [], now := max (now w) d\<rparr>"] by auto
  show ?thesis using assms by (simp add: advance_def Let_def c)
qed


section \<open>The textarea revisions: one timeout at a time\<close>

lemma tidy_cases:
  assumes "tidy w"
  obtains "timers w = []"
  | i d f where "timers w = [(i, d, f)]" and "timeoutId w = Some i" and "mounted w"
proof (cases "timers w")
  case Nil
  then show ?thesis using that by simp
next
  case (Cons x xs)
  obtain i d f where "x = (i, d, f)" by (cases x)
  with Cons assms that show ?thesis by (simp add: tidy_def)
qed

lemma cleanup_tidy: "tidy w \<Longrightarrow> cleanup w = w\<lparr>timers := []\<rparr>"
proof (erule tidy_cases)
  assume a: "timers w = []"
  then show ?thesis by (simp add: cleanup_def clearTimeout_def split: option.splits)
next
  fix i d f assume "timers w = [(i, d, f)]" "timeoutId w = Some i"
  then show ?thesis by (simp add: cleanup_def clearTimeout_def)
qed

lemma tidy_frame:
  "tidy w \<Longrightarrow> timers w' = timers w \<Longrightarrow> timeoutId w' = timeoutId w \<Longrightarrow>
   mounted w' = mounted w \<Longrightarrow> tidy w'"
  by (simp add: tidy_def split: list.splits)

text \<open>
  A changed content replaces the waiting timeout, if there is one, by a new one: the
  cleanup removes the old one before the effect queues the new one.
\<close>

lemma setNoteContent_changed:
  "tidy w \<Longrightarrow> mounted w \<Longrightarrow> c \<noteq> noteContent w \<Longrightarrow>
   setNoteContent c w =
     w\<lparr>noteContent := c, timers := [(nextId w, now w + 500, CallSaveNote c)],
       nextId := Suc (nextId w), timeoutId := Some (nextId w)\<rparr>"
proof -
  assume a: "tidy w" "mounted w" "c \<noteq> noteContent w"
  from a(1) have "tidy (w\<lparr>noteContent := c\<rparr>)" by (rule tidy_frame) simp_all
  from cleanup_tidy[OF this] a(2,3) show ?thesis
    by (simp add: setNoteContent_def autoSaveEffect_def setTimeout_def)
qed

lemma tidy_advance: "tidy w \<Longrightarrow> tidy (advance t w)"
  by (erule tidy_cases) (simp_all add: tidy_def advance_timers advance_frame)

lemma tidy_setNoteContent: "tidy w \<Longrightarrow> tidy (setNoteContent c w)"
proof (cases "mounted w \<and> c \<noteq> noteContent w")
  case True
  assume "tidy w"
  with True show ?thesis by (simp add: setNoteContent_changed tidy_def)
next
  case False
  assume "tidy w"
  with False show ?thesis by (auto simp add: setNoteContent_def)
qed

lemma tidy_setIsLoading: "tidy w \<Longrightarrow> tidy (setIsLoading b w)"
  by (erule tidy_frame) (simp_all add: setIsLoading_def)

lemma tidy_handle: "tidy w \<Longrightarrow> tidy (handle e w)"
proof (cases e)
  case (Edit c)
  assume "tidy w"
  then show ?thesis using Edit by (simp add: tidy_setNoteContent)
next
  case (LoadSettles r)
  assume t: "tidy w"
  then have p: "tidy (w\<lparr>loadPending := False\<rparr>)" by (rule tidy_frame) simp_all
  show ?thesis
  proof (cases r)
    case (Inr c)
    then show ?thesis using t LoadSettles tidy_setIsLoading[OF tidy_setNoteContent[OF p]]
      by (simp add: loadNote_def)
  next
    case (Inl x)
    have "tidy (w\<lparr>loadPending := False, console := k\<rparr>)" for k
      using t by (rule tidy_frame) simp_all
    then show ?thesis using t Inl LoadSettles
      by (simp add: loadNote_def tidy_setIsLoading)
  qed
next
  case Unmount
  assume "tidy w"
  then show ?thesis using Unmount by (simp add: cleanup_tidy) (simp add: tidy_def)
next
  case (SetStatus m)
  assume "tidy w"
  then have "tidy (w\<lparr>store := (store w)\<lparr>status := m\<rparr>\<rparr>)" by (rule tidy_frame) simp_all
  then show ?thesis using SetStatus by simp
next
  case (SettingsClick b)
  assume "tidy w"
  then have "tidy (setShowSettings b w)"
    by (rule tidy_frame) (simp_all add: setShowSettings_def)
  then show ?thesis using SettingsClick by simp
next
  case (ForceClick r)
  assume "tidy w"
  then have "tidy (forceWindowOnTop r w)"
    by (rule tidy_frame) (simp_all add: forceWindowOnTop_def split: sum.splits)
  then show ?thesis using ForceClick by simp
next
  case (DebugClick r)
  assume "tidy w"
  then have "tidy (debugWindowInfo r w)"
    by (rule tidy_frame) (simp_all add: debugWindowInfo_def split: sum.splits)
  then show ?thesis using DebugClick by simp
next
  case (DragStart r)
  assume "tidy w"
  then have "tidy (handleDragStart r w)"
    by (rule tidy_frame) (simp_all add: handleDragStart_def split: sum.splits)
  then show ?thesis using DragStart by simp
qed

lemma tidy_run: "tidy w \<Longrightarrow> tidy (run w es)"
proof (induction es arbitrary: w)
  case Nil
  then show ?case by simp
next
  case (Cons x es)
  obtain t e where "x = (t, e)" by (cases x)
  with Cons show ?case by (simp add: tidy_advance tidy_handle)
qed

lemma mount_eq:
  "mount st = (initial st)\<lparr>loadPending := True, timers := [(0, 500, CallSaveNote [])],
      nextId := 1, timeoutId := Some 0\<rparr>"
  by (simp add: mount_def initial_def autoSaveEffect_def setTimeout_def)

lemma mount_fields:
  "timers (mount st) = [(0, 500, CallSaveNote [])]" "timeoutId (mount st) = Some 0"
  "nextId (mount st) = 1" "now (mount st) = 0" "noteContent (mount st) = []"
  "isLoading (mount st)" "loadPending (mount st)" "mounted (mount st)"
  "saves (mount st) = []" "console (mount st) = []" "uncaught (mount st) = []"
  "store (mount st) = st" "\<not> showSettings (mount st)"
  by (simp_all add: mount_eq initial_def)

lemma tidy_mount: "tidy (mount st)"
  by (simp add: tidy_def mount_fields)

text \<open>In every execution of the textarea revisions at most one timeout waits.\<close>

lemma tidy_reachable: "tidy (run (mount st) es)"
  by (rule tidy_run[OF tidy_mount])

lemma armedD:
  assumes "armed w t c"
  obtains i where "timers w = [(i, t + 500, CallSaveNote c)]" and "timeoutId w = Some i"
    and "now w = t" and "mounted w"
proof -
  from assms have p: "map snd (timers w) = [(t + 500, CallSaveNote c)]"
    and q: "map (\<lambda>x. Some (fst x)) (timers w) = [timeoutId w]"
    and r: "now w = t" "mounted w" by (simp_all add: armed_def pending_def)
  from p obtain x where x: "timers w = [x]" "snd x = (t + 500, CallSaveNote c)" by auto
  with q have "timeoutId w = Some (fst x)" by simp
  moreover from x have "timers w = [(fst x, t + 500, CallSaveNote c)]"
    by (metis prod.collapse)
  ultimately show ?thesis using that r by blast
qed

lemma armed_tidy: "armed w t c \<Longrightarrow> tidy w"
  by (erule armedD) (simp add: tidy_def)

text \<open>
  The waiting timeout runs exactly when the clock has reached its deadline, and then
  sends the content it captured.
\<close>

lemma armed_saves:
  assumes "armed w t c"
  shows "saves (advance T w) = saves w @ (if t + 500 \<le> T then [(t + 500, c)] else [])"
proof -
  from assms obtain i where a: "timers w = [(i, t + 500, CallSaveNote c)]" "now w = t"
    by (rule armedD)
  show ?thesis
  proof (cases "t + 500 \<le> T")
    case True
    then show ?thesis using a by (simp add: advance_one_due[OF a(1) True] saveNote_saves)
  next
    case False
    then have "T < t + 500" by simp
    then show ?thesis by (simp add: advance_one_early[OF a(1)])
  qed
qed

lemma armed_after_change:
  assumes "tidy w" and "mounted w" and "c \<noteq> noteContent w"
  shows "armed (setNoteContent c w) (now w) c" and "noteContent (setNoteContent c w) = c"
    and "saves (setNoteContent c w) = saves w"
  using assms(2)
  by (simp_all add: setNoteContent_changed[OF assms] armed_def pending_def)

text \<open>
  Every edit of a rapid sequence finds the timeout of the one before it still
  waiting, replaces it, and leaves the list of saves alone.
\<close>

lemma armed_step:
  assumes "armed w t c" and "noteContent w = c" and "t \<le> t'" and "t' < t + 500" and "c' \<noteq> c"
  shows "armed (handle (Edit c') (advance t' w)) t' c'"
    and "noteContent (handle (Edit c') (advance t' w)) = c'"
    and "saves (handle (Edit c') (advance t' w)) = saves w"
proof -
  from assms(1) obtain i where a: "timers w = [(i, t + 500, CallSaveNote c)]"
    "timeoutId w = Some i" "now w = t" "mounted w" by (rule armedD)
  let ?a = "advance t' w"
  have adv: "?a = w\<lparr>now := t'\<rparr>"
    using advance_one_early[OF a(1) assms(4)] a(3) assms(3) by (simp add: max_def)
  have t: "tidy ?a" by (rule tidy_advance[OF armed_tidy[OF assms(1)]])
  have m: "mounted ?a" and n: "c' \<noteq> noteContent ?a" and nw: "now ?a = t'"
    and s: "saves ?a = saves w"
    using a(4) assms(2,5) by (simp_all add: adv)
  from armed_after_change[OF t m n] nw s
  show "armed (handle (Edit c') ?a) t' c'" and "noteContent (handle (Edit c') ?a) = c'"
    and "saves (handle (Edit c') ?a) = saves w" by simp_all
qed

lemma run_edits_armed:
  "armed w t c \<Longrightarrow> noteContent w = c \<Longrightarrow> rapid t es \<Longrightarrow> changing c es \<Longrightarrow>
   armed (run w (edits es)) (fst (last ((t, c) # es))) (snd (last ((t, c) # es))) \<and>
   saves (run w (edits es)) = saves w"
proof (induction es arbitrary: w t c)
  case Nil
  then show ?case by (simp add: edits_def)
next
  case (Cons e es)
  obtain t' c' where e: "e = (t', c')" by (cases e)
  from Cons.prems e have t': "t \<le> t'" "t' < t + 500" "rapid t' es"
    and c': "c' \<noteq> c" "changing c' es" by simp_all
  let ?w = "handle (Edit c') (advance t' w)"
  note s = armed_step[OF Cons.prems(1,2) t'(1,2) c'(1)]
  from Cons.IH[OF s(1) s(2) t'(3) c'(2)] s(3) have
    "armed (run ?w (edits es)) (fst (last ((t', c') # es))) (snd (last ((t', c') # es))) \<and>
     saves (run ?w (edits es)) = saves w" by simp
  then show ?case using e by (simp add: edits_def)
qed

text \<open>
  The textarea revisions debounce as intended. Take a mounted component with at most
  its own timeout waiting, and a sequence of edits at \<open>t1\<close> and after, each less than
  500 ms after the one before it and each with a changed content. From the first edit on
  exactly one save is issued: it carries the content of the last edit and goes out
  500 ms after it; at any earlier time \<open>T\<close> the list of saves is still the one the
  first edit found.
\<close>

lemma edits_collapse:
  assumes "mounted w" and "tidy w" and "now w \<le> t1" and "c1 \<noteq> noteContent w"
    and "rapid t1 es" and "changing c1 es"
  shows "saves (advance T (run w (edits ((t1, c1) # es)))) =
         saves (advance t1 w) @
           (if fst (last ((t1, c1) # es)) + 500 \<le> T
            then [(fst (last ((t1, c1) # es)) + 500, snd (last ((t1, c1) # es)))] else [])"
proof -
  let ?a = "advance t1 w"
  let ?w = "handle (Edit c1) ?a"
  have nw: "now ?a = t1" using assms(3) by (rule advance_now)
  have m: "mounted ?a" and n: "c1 \<noteq> noteContent ?a"
    using assms(1,4) by (simp_all add: advance_frame)
  from armed_after_change[OF tidy_advance[OF assms(2)] m n] nw
  have a: "armed ?w t1 c1" "noteContent ?w = c1" "saves ?w = saves ?a" by simp_all
  from run_edits_armed[OF a(1) a(2) assms(5) assms(6)] a(3)
  have r: "armed (run ?w (edits es)) (fst (last ((t1, c1) # es))) (snd (last ((t1, c1) # es)))"
    "saves (run ?w (edits es)) = saves ?a" by simp_all
  have "run w (edits ((t1, c1) # es)) = run ?w (edits es)" by (simp add: edits_def)
  then show ?thesis using armed_saves[OF r(1), of T] r(2) by simp
qed

text \<open>
  The scenario "H", "He", "Hello", 100 ms apart, after a first run has settled: one save
  of "Hello" at 1700, none of the three before.
\<close>

lemma edits_collapse_scenario:
  "saves (advance 1700 (run (startup first_run 100 (load_note first_run))
            (edits [(1000, ''H''), (1100, ''He''), (1200, ''Hello'')]))) =
     [(500, []), (1700, ''Hello'')] \<and>
   saves (advance 1699 (run (startup first_run 100 (load_note first_run))
            (edits [(1000, ''H''), (1100, ''He''), (1200, ''Hello'')]))) =
     [(500, [])]"
  by code_simp

subsection \<open>From the first render to the settled load\<close>

lemma mount_armed: "armed (mount st) 0 []"
  by (simp add: armed_def pending_def mount_fields)

lemma mount_saves: "saves (advance L (mount st)) = (if 500 \<le> L then [(500, [])] else [])"
  using armed_saves[OF mount_armed, of L st] by (simp add: mount_fields)

lemma mount_advance_fields:
  "tidy (advance L (mount st))" "mounted (advance L (mount st))"
  "noteContent (advance L (mount st)) = []" "now (advance L (mount st)) = L"
  "nextId (advance L (mount st)) = 1" "loadPending (advance L (mount st))"
  "isLoading (advance L (mount st))" "uncaught (advance L (mount st)) = []"
  by (simp_all add: tidy_advance tidy_mount advance_frame advance_frame_browser advance_now
        mount_fields)

lemma seeded_world:
  assumes "c \<noteq> []"
  shows "startup st L (Inr c) =
     (advance L (mount st))\<lparr>loadPending := False, noteContent := c,
        timers := [(1, L + 500, CallSaveNote c)], nextId := 2, timeoutId := Some 1,
        isLoading := False\<rparr>"
proof -
  let ?a = "(advance L (mount st))\<lparr>loadPending := False\<rparr>"
  have t: "tidy ?a" using mount_advance_fields(1)[of L st] by (rule tidy_frame) simp_all
  have m: "mounted ?a" and n: "c \<noteq> noteContent ?a"
    using assms by (simp_all add: mount_advance_fields)
  show ?thesis
    by (simp add: startup_def mount_advance_fields loadNote_def setIsLoading_def
          setNoteContent_changed[OF t m n])
qed

lemma seeded_empty_world:
  "startup st L (Inr []) = (advance L (mount st))\<lparr>loadPending := False, isLoading := False\<rparr>"
  by (simp add: startup_def mount_advance_fields loadNote_def setNoteContent_def
        setIsLoading_def)

lemma failed_load_world:
  "startup st L (Inl e) =
     (advance L (mount st))\<lparr>loadPending := False,
        console := console (advance L (mount st)) @ [ConsoleError ''Failed to load note:'' e],
        isLoading := False\<rparr>"
  by (simp add: startup_def mount_advance_fields loadNote_def setIsLoading_def)

lemma startup_noteContent: "noteContent (startup st L (Inr c)) = c"
  by (cases "c = []") (simp_all add: seeded_world seeded_empty_world mount_advance_fields)

subsection \<open>After the teardown\<close>

lemma silent_handle:
  assumes "\<not> mounted w" and "timers w = []"
  shows "\<not> mounted (handle e w)" and "timers (handle e w) = []"
    and "saves (handle e w) = saves w"
  using assms
  by (cases e;
      simp add: setNoteContent_def setIsLoading_def setShowSettings_def loadNote_def
        forceWindowOnTop_def debugWindowInfo_def handleDragStart_def split: sum.splits)+

text \<open>
  Once the component is torn down and the queue is empty, whatever happens later, be it
  a late settlement of the load or the clock running on, issues no save.
\<close>

lemma silent_run:
  "\<not> mounted w \<Longrightarrow> timers w = [] \<Longrightarrow> saves (advance T (run w es)) = saves w"
proof (induction es arbitrary: w)
  case Nil
  then show ?case by (simp add: advance_none)
next
  case (Cons x es)
  obtain t e where x: "x = (t, e)" by (cases x)
  let ?a = "advance t w"
  from Cons.prems have a: "\<not> mounted ?a" "timers ?a = []" "saves ?a = saves w"
    by (simp_all add: advance_none)
  from Cons.IH[OF silent_handle(1,2)[OF a(1,2)]] silent_handle(3)[OF a(1,2)] a(3) x
  show ?case by simp
qed


section \<open>The debounced auto-save\<close>

text \<open>
  In the editor revision two document changes less than 500 ms apart are both saved,
  each 500 ms after it happened: the render after the first change builds a new
  closure, so the second call of \<open>debouncedSave\<close> clears nothing.
\<close>

lemma two_updates_two_saves:
  assumes "timers w = []" and "now w \<le> t1" and "t1 \<le> t2" and "t2 < t1 + 500"
    and "t2 + 500 \<le> T"
  shows "saves (advance T (run_ed w (updates [(t1, c1), (t2, c2)]))) =
         saves w @ [(t1 + 500, c1), (t2 + 500, c2)]"
proof -
  define a1 where "a1 = advance t1 w"
  have a1: "a1 = w\<lparr>now := t1\<rparr>"
    using assms(1,2) by (simp add: a1_def advance_none max_def)
  define u1 where "u1 = handle_ed (Update c1) a1"
  have u1: "u1 = w\<lparr>now := t1, timers := [(nextId w, t1 + 500, CallSaveNote c1)],
      nextId := Suc (nextId w), timeoutId_ed := None\<rparr>"
    using assms(1)
    by (simp add: u1_def a1 render_def onUpdate_def debouncedSave_def debounce_def
          setTimeout_def clearTimeout_def split: option.splits)
  define a2 where "a2 = advance t2 u1"
  have "timers u1 = [(nextId w, t1 + 500, CallSaveNote c1)]" by (simp add: u1)
  from advance_one_early[OF this assms(4)] assms(3)
  have a2: "a2 = w\<lparr>now := t2, timers := [(nextId w, t1 + 500, CallSaveNote c1)],
      nextId := Suc (nextId w), timeoutId_ed := None\<rparr>"
    by (simp add: a2_def) (simp add: u1 max_def)
  define u2 where "u2 = handle_ed (Update c2) a2"
  have u2: "u2 = w\<lparr>now := t2,
      timers := [(nextId w, t1 + 500, CallSaveNote c1),
                 (Suc (nextId w), t2 + 500, CallSaveNote c2)],
      nextId := Suc (Suc (nextId w)), timeoutId_ed := None\<rparr>"
    by (simp add: u2_def a2 render_def onUpdate_def debouncedSave_def debounce_def
          setTimeout_def clearTimeout_def)
  have r: "run_ed w (updates [(t1, c1), (t2, c2)]) = u2"
    by (simp add: updates_def u2_def a2_def u1_def a1_def)
  have "saves (advance T u2) = saves w @ [(t1 + 500, c1), (t2 + 500, c2)]"
    using assms(3,4,5) by (simp add: u2 advance_def Let_def saveNote_eq max_def)
  then show ?thesis by (simp only: r)
qed


text \<open>
  C2, as the code has it. The component has no shutdown handler and no flush: when it is
  torn down, the cleanup of the effect clears the waiting timeout. Take any world in
  which at most the timeout of the current effect waits, as is the case in every
  execution (\<open>tidy_reachable\<close>). After the teardown the queue is empty; no save is
  issued however long the clock runs and whatever events \<open>es\<close> arrive later, and while
  the clock runs the store stays as the teardown found it.
\<close>

theorem unmount_cancels:
  assumes "tidy w"
  shows "timers (run w [(t, Unmount)]) = [] \<and>
         saves (advance T (run w [(t, Unmount)])) = saves (advance t w) \<and>
         store (advance T (run w [(t, Unmount)])) = store (advance t w) \<and>
         saves (advance T (run w ((t, Unmount) # es))) = saves (advance t w)"
proof -
  let ?a = "advance t w"
  let ?u = "handle Unmount ?a"
  have t: "tidy ?a" by (rule tidy_advance[OF assms])
  have u: "\<not> mounted ?u \<and> timers ?u = [] \<and> saves ?u = saves ?a \<and> store ?u = store ?a"
  proof (cases "mounted ?a")
    case True
    then show ?thesis by (simp add: cleanup_tidy[OF t])
  next
    case False
    with t have "timers ?a = []" by (auto elim: tidy_cases)
    with False show ?thesis by simp
  qed
  then have "saves (advance T (run ?u es)) = saves ?a" for es
    using silent_run[of ?u T es] by simp
  from this[of "[]"] this[of es] u show ?thesis by (simp add: advance_none)
qed

text \<open>
  The note "x" is loaded, the edit "xy" at 1000 leaves a timeout for 1500, and the
  component is torn down at 1200: the queue is empty and the save of "x" at 600 stays
  the only one.
\<close>

theorem unmount_cancels_witness:
  "tidy (run (mount (holding ''x''))
      [(100, LoadSettles (load_note (holding ''x''))), (1000, Edit ''xy'')]) \<and>
   pending (run (mount (holding ''x''))
      [(100, LoadSettles (load_note (holding ''x''))), (1000, Edit ''xy'')]) =
     [(1500, CallSaveNote ''xy'')] \<and>
   timers (run (run (mount (holding ''x''))
      [(100, LoadSettles (load_note (holding ''x''))), (1000, Edit ''xy'')])
      [(1200, Unmount)]) = [] \<and>
   saves (advance 3000 (run (run (mount (holding ''x''))
      [(100, LoadSettles (load_note (holding ''x''))), (1000, Edit ''xy'')])
      [(1200, Unmount)])) = [(600, ''x'')]"
proof -
  let ?w = "run (mount (holding ''x''))
      [(100, LoadSettles (load_note (holding ''x''))), (1000, Edit ''xy'')]"
  have h: "tidy ?w" by (rule tidy_reachable)
  have p: "pending ?w = [(1500, CallSaveNote ''xy'')]" by code_simp
  have s: "saves (advance 1200 ?w) = [(600, ''x'')]" by code_simp
  from unmount_cancels[OF h, of 1200 3000 "[]"] s h p show ?thesis by simp
qed

text \<open>
  C2 as it is written fails: the note "x" is loaded, the edit "xy" at 1000 leaves a
  flush pending for 1500, and the teardown at 1200 drops it. The only save ever issued is
  the one of "x", and "x" is what the store holds.
\<close>

theorem unmount_cancels_counterexample:
  "pending (run (mount (holding ''x''))
      [(100, LoadSettles (load_note (holding ''x''))), (1000, Edit ''xy'')]) =
     [(1500, CallSaveNote ''xy'')] \<and>
   saves (advance 3000 (run (mount (holding ''x''))
      [(100, LoadSettles (load_note (holding ''x''))), (1000, Edit ''xy''), (1200, Unmount)])) =
     [(600, ''x'')] \<and>
   stored_bytes (store (advance 3000 (run (mount (holding ''x''))
      [(100, LoadSettles (load_note (holding ''x''))), (1000, Edit ''xy''), (1200, Unmount)]))) =
     ''x''"
  by code_simp

text \<open>
  C3, as the code has it. The loaded content is applied once, by \<open>setNoteContent\<close>: a
  second settlement finds no pending load and changes nothing. Since the auto-save effect
  is keyed on \<open>noteContent\<close>, applying a non-empty loaded content arms the timeout anew,
  and with no edit at all a save of the loaded content is issued 500 ms after the load
  settled (after the save armed at mount, when the load took 500 ms or more).
\<close>

theorem seed_schedules_save:
  assumes "c \<noteq> []" and "L + 500 \<le> T"
  shows "noteContent (startup st L (Inr c)) = c \<and>
         \<not> isLoading (startup st L (Inr c)) \<and>
         handle (LoadSettles r) (startup st L (Inr c)) = startup st L (Inr c) \<and>
         pending (startup st L (Inr c)) = [(L + 500, CallSaveNote c)] \<and>
         saves (advance T (startup st L (Inr c))) =
           (if 500 \<le> L then [(500, [])] else []) @ [(L + 500, c)]"
proof -
  let ?w = "startup st L (Inr c)"
  note sw = seeded_world[OF assms(1), of st L]
  have "armed ?w L c" by (simp add: sw armed_def pending_def mount_advance_fields)
  from armed_saves[OF this, of T] assms(2)
  have "saves (advance T ?w) = saves ?w @ [(L + 500, c)]" by simp
  moreover have "saves ?w = (if 500 \<le> L then [(500, [])] else [])"
    by (simp add: sw mount_saves)
  ultimately show ?thesis by (simp add: sw pending_def)
qed

theorem seed_schedules_save_witness:
  "''abc'' \<noteq> [] \<and> (100 :: nat) + 500 \<le> 600 \<and>
   noteContent (startup (holding ''abc'') 100 (Inr ''abc'')) = ''abc'' \<and>
   pending (startup (holding ''abc'') 100 (Inr ''abc'')) = [(600, CallSaveNote ''abc'')] \<and>
   saves (advance 600 (startup (holding ''abc'') 100 (Inr ''abc''))) = [(600, ''abc'')]"
proof -
  have h1: "''abc'' \<noteq> []" by simp
  have h2: "(100 :: nat) + 500 \<le> 600" by simp
  from seed_schedules_save[OF h1 h2, of "holding ''abc''" "Inr []"]
  show ?thesis by simp
qed

text \<open>
  C3 as it is written fails: the stored note "abc" is loaded at 100, no edit follows, and
  yet a save is scheduled for 600 and issued then.
\<close>

theorem seed_schedules_save_counterexample:
  "load_note (holding ''abc'') = Inr ''abc'' \<and>
   pending (run (mount (holding ''abc'')) [(100, LoadSettles (load_note (holding ''abc'')))]) =
     [(600, CallSaveNote ''abc'')] \<and>
   saves (advance 600
      (run (mount (holding ''abc'')) [(100, LoadSettles (load_note (holding ''abc'')))])) =
     [(600, ''abc'')]"
  by code_simp


section \<open>Failures at the boundary\<close>




text \<open>
  C6. On a first run, with nothing stored, \<open>load_note\<close> returns the empty string and no
  error, and the component ends up with the empty note. When \<open>load_note\<close> fails, the
  rejection is caught and written to the console, nothing leaves the handler, the loading
  screen is left, and the note in memory is the empty string.
\<close>

theorem failed_load_is_empty_note:
  assumes "blob st0 = None" and "load_note st = Inl e"
  shows "load_note st0 = Inr [] \<and>
         noteContent (startup st0 L (load_note st0)) = [] \<and>
         \<not> isLoading (startup st0 L (load_note st0)) \<and>
         uncaught (startup st0 L (load_note st0)) = [] \<and>
         noteContent (startup st L (load_note st)) = [] \<and>
         \<not> isLoading (startup st L (load_note st)) \<and>
         uncaught (startup st L (load_note st)) = [] \<and>
         last (console (startup st L (load_note st))) = ConsoleError ''Failed to load note:'' e"
proof -
  have a: "load_note st0 = Inr []" using assms(1) by (simp add: load_note_def)
  show ?thesis
    by (simp add: a assms(2) seeded_empty_world failed_load_world mount_advance_fields)
qed

theorem failed_load_is_empty_note_witness:
  "blob first_run = None \<and>
   load_note \<lparr>blob = Some ''old'', status = Unavailable\<rparr> = Inl ''StorageUnavailable'' \<and>
   load_note first_run = Inr [] \<and>
   noteContent (startup first_run 100 (load_note first_run)) = [] \<and>
   noteContent (startup \<lparr>blob = Some ''old'', status = Unavailable\<rparr> 100
      (load_note \<lparr>blob = Some ''old'', status = Unavailable\<rparr>)) = [] \<and>
   uncaught (startup \<lparr>blob = Some ''old'', status = Unavailable\<rparr> 100
      (load_note \<lparr>blob = Some ''old'', status = Unavailable\<rparr>)) = [] \<and>
   last (console (startup \<lparr>blob = Some ''old'', status = Unavailable\<rparr> 100
      (load_note \<lparr>blob = Some ''old'', status = Unavailable\<rparr>))) =
     ConsoleError ''Failed to load note:'' ''StorageUnavailable''"
proof -
  have h1: "blob first_run = None" by (simp add: first_run_def)
  have h2: "load_note \<lparr>blob = Some ''old'', status = Unavailable\<rparr> = Inl ''StorageUnavailable''"
    by (simp add: load_note_def)
  from failed_load_is_empty_note[OF h1 h2, of 100] h1 h2
  show ?thesis by blast
qed


section \<open>The store\<close>

text \<open>
  C5. On a healthy medium, saving any content \<open>X\<close> succeeds and a load after it returns
  \<open>X\<close>; a load returns the stored bytes, and saving them back leaves the stored bytes as
  they were. The component adds nothing of its own: \<open>saveNote\<close> hands its content to
  \<open>save_note\<close> as it is, and after a start the note in memory is what \<open>load_note\<close>
  returned.
\<close>

theorem store_round_trip:
  assumes "status st = Healthy"
  shows "fst (save_note st X) = Inr () \<and>
         load_note (snd (save_note st X)) = Inr X \<and>
         load_note st = Inr (stored_bytes st) \<and>
         stored_bytes (snd (save_note st (stored_bytes st))) = stored_bytes st \<and>
         store (saveNote X (w\<lparr>store := st\<rparr>)) = snd (save_note st X) \<and>
         noteContent (startup (snd (save_note st X)) L (load_note (snd (save_note st X)))) = X"
proof -
  have a: "load_note (snd (save_note st X)) = Inr X"
    using assms by (simp add: save_note_def load_note_def)
  show ?thesis using assms a
    by (simp add: saveNote_store startup_noteContent)
       (simp add: save_note_def load_note_def stored_bytes_def split: option.splits)
qed

text \<open>The empty string, and a note with line breaks and a separator line.\<close>

theorem store_round_trip_witness:
  "status first_run = Healthy \<and>
   load_note (snd (save_note first_run [])) = Inr [] \<and>
   load_note (snd (save_note first_run (''a'' @ [CHR 0x0A] @ ''---'' @ [CHR 0x0A] @ ''b''))) =
     Inr (''a'' @ [CHR 0x0A] @ ''---'' @ [CHR 0x0A] @ ''b'') \<and>
   stored_bytes (snd (save_note first_run (stored_bytes first_run))) = stored_bytes first_run"
proof -
  have h: "status first_run = Healthy" by (simp add: first_run_def)
  from store_round_trip[OF h, of "[]"]
    store_round_trip[OF h, of "''a'' @ [CHR 0x0A] @ ''---'' @ [CHR 0x0A] @ ''b''"] h
  show ?thesis by blast
qed


section \<open>The visibility controller\<close>

text \<open>
  C7. \<open>toggleHotkey\<close> applied twice from Hidden returns to Hidden, and applied once from
  VisibleForcedOnTop it yields Hidden.
\<close>

theorem toggleHotkey_involution:
  "toggleHotkey (toggleHotkey Hidden) = Hidden \<and> toggleHotkey VisibleForcedOnTop = Hidden"
  by simp

text \<open>
  C8. \<open>forceOnTop\<close> twice in a row from Visible or from VisibleForcedOnTop ends in
  VisibleForcedOnTop, and from any state the second call changes nothing. On the side of
  the component, \<open>forceWindowOnTop\<close> catches a rejected call: two clicks, however the
  backend answers, let no rejection out and change nothing but the console.
\<close>

theorem forceOnTop_idempotent:
  "forceOnTop (forceOnTop Visible) = VisibleForcedOnTop \<and>
   forceOnTop (forceOnTop VisibleForcedOnTop) = VisibleForcedOnTop \<and>
   forceOnTop (forceOnTop s) = forceOnTop s \<and>
   handle (ForceClick r) w = forceWindowOnTop r w \<and>
   uncaught (forceWindowOnTop r2 (forceWindowOnTop r1 w)) = uncaught w \<and>
   (forceWindowOnTop r2 (forceWindowOnTop r1 w))\<lparr>console := console w\<rparr> = w"
  by (cases s) (simp_all add: forceWindowOnTop_def split: sum.splits)


section \<open>Diagnostics\<close>

text \<open>
  C9. \<open>debugWindowInfo\<close> writes to the console (and shows an alert) and does nothing
  else: with the console put back, the world is the one before the call, whether the
  backend call succeeded or failed. In particular the note content, the settings and
  loading flags, the waiting timeouts, the store and the saves issued are unchanged, so
  the answer of the backend decides nothing afterwards.
\<close>

theorem debugWindowInfo_frame:
  "(debugWindowInfo r w)\<lparr>console := console w\<rparr> = w \<and>
   handle (DebugClick r) w = debugWindowInfo r w \<and>
   noteContent (debugWindowInfo r w) = noteContent w \<and>
   showSettings (debugWindowInfo r w) = showSettings w \<and>
   isLoading (debugWindowInfo r w) = isLoading w \<and>
   store (debugWindowInfo r w) = store w \<and>
   timers (debugWindowInfo r w) = timers w \<and>
   timeoutId (debugWindowInfo r w) = timeoutId w \<and>
   saves (debugWindowInfo r w) = saves w \<and>
   uncaught (debugWindowInfo r w) = uncaught w"
  by (simp add: debugWindowInfo_def split: sum.splits)


section \<open>The save armed at mount\<close>

text \<open>
  C10. The auto-save effect runs at the first render, with the empty initial content, and
  arms a save of the empty string for 500 ms after mount. When the load settles later
  than that, on a healthy medium, the clock reaches the settlement with the save of the
  empty string already issued and the store holding the empty string, while the component
  is still loading and the loaded content is not yet applied; it is applied only
  afterwards.
\<close>

theorem mount_save_overwrites:
  assumes "500 < L" and "status st = Healthy"
  shows "pending (mount st) = [(500, CallSaveNote [])] \<and>
         saves (advance L (mount st)) = [(500, [])] \<and>
         blob (store (advance L (mount st))) = Some [] \<and>
         isLoading (advance L (mount st)) \<and> loadPending (advance L (mount st)) \<and>
         noteContent (advance L (mount st)) = [] \<and>
         saves (startup st L (Inr c)) = [(500, [])] \<and>
         noteContent (startup st L (Inr c)) = c"
proof -
  have d: "(500::nat) \<le> L" using assms(1) by simp
  have "store (advance L (mount st)) = snd (save_note st [])"
    by (simp add: advance_one_due[OF mount_fields(1) d] saveNote_store mount_fields)
  then have b: "blob (store (advance L (mount st))) = Some []"
    using assms(2) by (simp add: save_note_def)
  have s: "saves (startup st L (Inr c)) = [(500, [])]"
    using d by (cases "c = []") (simp_all add: seeded_world seeded_empty_world mount_saves)
  show ?thesis using d b s
    by (simp add: pending_def mount_fields mount_saves mount_advance_fields startup_noteContent)
qed

text \<open>
  The stored note "my note", with a load that takes 600 ms: at 500 the empty string is
  saved over it.
\<close>

theorem mount_save_overwrites_witness:
  "(500 :: nat) < 600 \<and> status (holding ''my note'') = Healthy \<and>
   stored_bytes (holding ''my note'') = ''my note'' \<and>
   saves (advance 600 (mount (holding ''my note''))) = [(500, [])] \<and>
   blob (store (advance 600 (mount (holding ''my note'')))) = Some [] \<and>
   noteContent (advance 600 (mount (holding ''my note''))) = [] \<and>
   noteContent (startup (holding ''my note'') 600 (Inr ''my note'')) = ''my note''"
proof -
  have h1: "(500 :: nat) < 600" by simp
  have h2: "status (holding ''my note'') = Healthy" by (simp add: holding_def)
  have h3: "stored_bytes (holding ''my note'') = ''my note''"
    by (simp add: holding_def stored_bytes_def)
  from mount_save_overwrites[OF h1 h2, of "''my note''"] h2 h3
  show ?thesis by simp
qed

end
